theory Spec2Isabelle
  imports Main
begin

unbundle bit_operations_syntax

section \<open>Values on the stack\<close>

text \<open>
  The helper \<^verbatim>\<open>_classnames\<close> of \<^verbatim>\<open>classnames.ts\<close> receives a JavaScript array
  \<^verbatim>\<open>stack: any[]\<close> and consumes it from the front with \<^verbatim>\<open>shift\<close>. The elements the
  rewriter produces are numbers (tags, counts, style indexes), strings and booleans; a
  JavaScript array can also hold \<^verbatim>\<open>undefined\<close> and \<^verbatim>\<open>null\<close>. Numbers are modelled by
  \<^typ>\<open>int\<close>: every number the format uses is an integer (fractions, \<^verbatim>\<open>NaN\<close> and the
  infinities are outside the model).
\<close>

datatype jsval = JNum int | JStr string | JBool bool | JUndefined | JNull

text \<open>
  The exceptions the code can throw: \<^verbatim>\<open>e("not a number: ...")\<close>, the \<^verbatim>\<open>TypeError\<close> of
  calling \<^verbatim>\<open>toString\<close> on \<^verbatim>\<open>undefined\<close> or \<^verbatim>\<open>null\<close>, \<^verbatim>\<open>e("string expected")\<close> and
  \<^verbatim>\<open>e("wtf")\<close>.
\<close>

datatype error = NotANumber | TypeError | StringExpected | Wtf

subsection \<open>JavaScript coercions\<close>

text \<open>
  \<^verbatim>\<open>n.toString()\<close> for an integer \<open>n\<close> is its decimal numeral, with a minus sign when it is
  negative (JavaScript switches to the exponent form from \<open>10^21\<close> on; the tags, counts and
  indexes of the format are far below).
\<close>

definition digit_char :: "nat \<Rightarrow> char" where
  "digit_char d = ''0123456789'' ! d"

fun nat_toString :: "nat \<Rightarrow> string" where
  "nat_toString n =
     (if n < 10 then [digit_char n] else nat_toString (n div 10) @ [digit_char (n mod 10)])"

declare nat_toString.simps [simp del]

definition int_toString :: "int \<Rightarrow> string" where
  "int_toString i = (if i < 0 then CHR ''-'' # nat_toString (nat (- i)) else nat_toString (nat i))"

text \<open>\<^verbatim>\<open>x.toString()\<close>: a \<^verbatim>\<open>TypeError\<close> on \<^verbatim>\<open>undefined\<close> and \<^verbatim>\<open>null\<close>.\<close>

fun toString :: "jsval \<Rightarrow> error + string" where
  "toString (JNum n) = Inr (int_toString n)"
| "toString (JStr s) = Inr s"
| "toString (JBool b) = Inr (if b then ''true'' else ''false'')"
| "toString JUndefined = Inl TypeError"
| "toString JNull = Inl TypeError"

text \<open>\<^verbatim>\<open>!!x\<close>: the falsy values are \<^verbatim>\<open>0\<close>, \<^verbatim>\<open>""\<close>, \<^verbatim>\<open>false\<close>, \<^verbatim>\<open>undefined\<close> and \<^verbatim>\<open>null\<close>.\<close>

fun truthy :: "jsval \<Rightarrow> bool" where
  "truthy (JNum n) = (n \<noteq> 0)"
| "truthy (JStr s) = (s \<noteq> [])"
| "truthy (JBool b) = b"
| "truthy JUndefined = False"
| "truthy JNull = False"

text \<open>\<^verbatim>\<open>v.shift()\<close> removes and returns the front element; on an empty array it returns
  \<^verbatim>\<open>undefined\<close> and leaves the array empty.\<close>

fun shift :: "jsval list \<Rightarrow> jsval \<times> jsval list" where
  "shift [] = (JUndefined, [])"
| "shift (x # xs) = (x, xs)"

subsection \<open>The four readers (lines 95 to 102)\<close>

text \<open>
  \<^verbatim>\<open>const number = (v) => typeof v[0] === "number" ? v.shift() : e("not a number: ...")\<close>
\<close>

fun number :: "jsval list \<Rightarrow> error + (int \<times> jsval list)" where
  "number (JNum n # xs) = Inr (n, xs)"
| "number _ = Inl NotANumber"

text \<open>\<^verbatim>\<open>const string = (v) => v.shift().toString()\<close>\<close>

definition string :: "jsval list \<Rightarrow> error + (string \<times> jsval list)" where
  "string v =
     (case shift v of (s, v') \<Rightarrow>
        (case toString s of Inl err \<Rightarrow> Inl err | Inr str \<Rightarrow> Inr (str, v')))"

text \<open>
  \<^verbatim>\<open>const truthyString = (v) => { let s = v.shift(); if (!s && s !== 0) return; return s.toString(); }\<close>
  The result \<^verbatim>\<open>undefined\<close> is \<^const>\<open>None\<close>.
\<close>

definition truthyString :: "jsval list \<Rightarrow> error + (string option \<times> jsval list)" where
  "truthyString v =
     (case shift v of (s, v') \<Rightarrow>
        if \<not> truthy s \<and> s \<noteq> JNum 0 then Inr (None, v')
        else (case toString s of Inl err \<Rightarrow> Inl err | Inr str \<Rightarrow> Inr (Some str, v')))"

text \<open>\<^verbatim>\<open>const bool = (v) => !!v.shift()\<close>: no branch of it throws.\<close>

definition bool :: "jsval list \<Rightarrow> bool \<times> jsval list" where
  "bool v = (case shift v of (s, v') \<Rightarrow> (truthy s, v'))"

section \<open>The state of one call\<close>

text \<open>
  The locals of \<^verbatim>\<open>_classnames\<close> that its closures and loops share: the stack, the array
  \<^verbatim>\<open>sources\<close> (only ever assigned \<^verbatim>\<open>true\<close>, so it is the set of the indexes assigned; a
  read of any other index gives \<^verbatim>\<open>undefined\<close>), the list \<^verbatim>\<open>classes\<close> and the flag
  \<^verbatim>\<open>canSetSource\<close>.
\<close>

record state =
  stack :: "jsval list"
  sources :: "int set"
  classes :: "string list"
  canSetSource :: bool

text \<open>\<^verbatim>\<open>let abort = () => canSetSource = false\<close>\<close>

definition abort :: "state \<Rightarrow> state" where
  "abort st = st\<lparr>canSetSource := False\<rparr>"

text \<open>\<^verbatim>\<open>let isSourceSet = (n) => sources[n]\<close>\<close>

definition isSourceSet :: "int set \<Rightarrow> int \<Rightarrow> jsval" where
  "isSourceSet srcs n = (if n \<in> srcs then JBool True else JUndefined)"

text \<open>\<^verbatim>\<open>let setSource = (n) => { if (canSetSource) sources[n] = true; }\<close>\<close>

definition setSource :: "int \<Rightarrow> state \<Rightarrow> state" where
  "setSource n st = (if canSetSource st then st\<lparr>sources := insert n (sources st)\<rparr> else st)"

section \<open>Boolean formulas: \<^verbatim>\<open>boolExpr\<close> (lines 190 to 215)\<close>

text \<open>
  \<^verbatim>\<open>boolExpr\<close> reads a tag and, for the tags \<^verbatim>\<open>-1\<close>, \<^verbatim>\<open>-3\<close> and \<^verbatim>\<open>-2\<close>, calls itself on
  the rest of the stack; its two \<^verbatim>\<open>while\<close> loops are \<open>andLoop\<close> and \<open>orLoop\<close>, with the
  loop variables \<^verbatim>\<open>nAnds\<close>/\<^verbatim>\<open>nOrs\<close> and \<^verbatim>\<open>result\<close> as arguments. The value returned is the
  JavaScript value (\<^verbatim>\<open>sources[n]\<close> is \<^verbatim>\<open>true\<close> or \<^verbatim>\<open>undefined\<close>; \<^verbatim>\<open>a && b\<close> is \<^verbatim>\<open>b\<close> when
  \<^verbatim>\<open>a\<close> is truthy and \<^verbatim>\<open>a\<close> otherwise; \<^verbatim>\<open>a || b\<close> is \<^verbatim>\<open>a\<close> when \<^verbatim>\<open>a\<close> is truthy and \<^verbatim>\<open>b\<close>
  otherwise), returned with the stack that is left.
\<close>

function boolExpr :: "jsval list \<Rightarrow> (int \<Rightarrow> jsval) \<Rightarrow> error + (jsval \<times> jsval list)"
  and andLoop :: "int \<Rightarrow> jsval \<Rightarrow> jsval list \<Rightarrow> (int \<Rightarrow> jsval) \<Rightarrow> error + (jsval \<times> jsval list)"
  and orLoop :: "int \<Rightarrow> jsval \<Rightarrow> jsval list \<Rightarrow> (int \<Rightarrow> jsval) \<Rightarrow> error + (jsval \<times> jsval list)"
where
  "boolExpr v isSet =
     (case number v of Inl err \<Rightarrow> Inl err
      | Inr (type, v1) \<Rightarrow>
          if type = - 1 then
            (case boolExpr v1 isSet of Inl err \<Rightarrow> Inl err
             | Inr (r, v2) \<Rightarrow> Inr (JBool (\<not> truthy r), v2))
          else if type = - 3 then
            (case number v1 of Inl err \<Rightarrow> Inl err
             | Inr (nAnds, v2) \<Rightarrow> andLoop nAnds (JBool True) v2 isSet)
          else if type = - 2 then
            (case number v1 of Inl err \<Rightarrow> Inl err
             | Inr (nOrs, v2) \<Rightarrow> orLoop nOrs (JBool False) v2 isSet)
          else Inr (isSet type, v1))"
| "andLoop nAnds result v isSet =
     (if nAnds > 0 then
        (case boolExpr v isSet of Inl err \<Rightarrow> Inl err
         | Inr (nextResult, v') \<Rightarrow>
             andLoop (nAnds - 1) (if truthy result then nextResult else result) v' isSet)
      else Inr (result, v))"
| "orLoop nOrs result v isSet =
     (if nOrs > 0 then
        (case boolExpr v isSet of Inl err \<Rightarrow> Inl err
         | Inr (nextResult, v') \<Rightarrow>
             orLoop (nOrs - 1) (if truthy result then result else nextResult) v' isSet)
      else Inr (result, v))"
  by pat_completeness auto

lemma number_length: "number v = Inr (n, v') \<Longrightarrow> length v = Suc (length v')"
  by (cases v rule: number.cases) auto

lemma boolExpr_consumes_partial:
  "boolExpr_andLoop_orLoop_dom (Inl (v, isSet)) \<Longrightarrow>
     boolExpr v isSet = Inr (r, w) \<Longrightarrow> length w < length v"
  "boolExpr_andLoop_orLoop_dom (Inr (Inl (n, res, v, isSet))) \<Longrightarrow>
     andLoop n res v isSet = Inr (r, w) \<Longrightarrow> length w \<le> length v"
  "boolExpr_andLoop_orLoop_dom (Inr (Inr (n, res, v, isSet))) \<Longrightarrow>
     orLoop n res v isSet = Inr (r, w) \<Longrightarrow> length w \<le> length v"
proof (induction v isSet and n res v isSet and n res v isSet arbitrary: r w and r w and r w
    rule: boolExpr_andLoop_orLoop.pinduct)
  case (1 v isSet)
  then show ?case
    by (auto simp: boolExpr.psimps dest!: number_length split: sum.splits if_splits) fastforce+
next
  case (2 nAnds result v isSet)
  then show ?case
    by (auto simp: andLoop.psimps split: sum.splits if_splits) fastforce+
next
  case (3 nOrs result v isSet)
  then show ?case
    by (auto simp: orLoop.psimps split: sum.splits if_splits) fastforce+
qed

lemma boolExpr_total: "All boolExpr_andLoop_orLoop_dom"
proof (relation "measure (\<lambda>x. case x of
          Inl (v, _) \<Rightarrow> 2 * length v
        | Inr (Inl (_, _, v, _)) \<Rightarrow> 2 * length v + 1
        | Inr (Inr (_, _, v, _)) \<Rightarrow> 2 * length v + 1)", goal_cases)
  case 1
  show ?case by simp
next
  case (2 v isSet x2 type v1)
  then show ?case by (auto dest!: number_length)
next
  case (3 v isSet x2 type v1 y nAnds v2)
  then show ?case by (auto dest!: number_length)
next
  case (4 v isSet x2 type v1 y nOrs v2)
  then show ?case by (auto dest!: number_length)
next
  case (5 nAnds result v isSet)
  then show ?case by simp
next
  case (6 nAnds result v isSet x2 nextResult v')
  then show ?case by (auto dest: boolExpr_consumes_partial(1))
next
  case (7 nOrs result v isSet)
  then show ?case by simp
next
  case (8 nOrs result v isSet x2 nextResult v')
  then show ?case by (auto dest: boolExpr_consumes_partial(1))
qed

termination boolExpr
  by (rule boolExpr_total)

declare boolExpr.simps [simp del] andLoop.simps [simp del] orLoop.simps [simp del]

section \<open>Source expressions: \<^verbatim>\<open>sourceExpr\<close> (lines 131 to 188)\<close>

text \<open>
  The dependency loop (lines 138 to 141):
  \<^verbatim>\<open>while (numDeps-- > 0) { let depIndex = number(stack); if (!isSourceSet(depIndex)) abort(); }\<close>
\<close>

function depLoop :: "int \<Rightarrow> state \<Rightarrow> error + state" where
  "depLoop numDeps st =
     (if numDeps > 0 then
        (case number (stack st) of Inl err \<Rightarrow> Inl err
         | Inr (depIndex, v) \<Rightarrow>
             depLoop (numDeps - 1)
               (if \<not> truthy (isSourceSet (sources st) depIndex)
                then abort (st\<lparr>stack := v\<rparr>) else st\<lparr>stack := v\<rparr>))
      else Inr st)"
  by pat_completeness auto
termination
  by (relation "measure (\<lambda>(numDeps, st). nat numDeps)") auto

text \<open>
  The four loops over style indexes (lines 168 to 170, 175 to 177, 179 to 181 and 184 to
  186) have one shape,
  \<^verbatim>\<open>while (n-- > 0) { cond ? setSource(number(stack)) : number(stack); }\<close>,
  where \<^verbatim>\<open>cond\<close> does not change while the loop runs: it is \<^verbatim>\<open>value === matchValue\<close>,
  \<^verbatim>\<open>condition\<close>, its negation (the branches swapped), or constantly true (the plain
  \<^verbatim>\<open>setSource(number(stack))\<close>). The index is read before \<^verbatim>\<open>setSource\<close> is called.
\<close>

function setLoop :: "bool \<Rightarrow> int \<Rightarrow> state \<Rightarrow> error + state" where
  "setLoop cond nSources st =
     (if nSources > 0 then
        (case number (stack st) of Inl err \<Rightarrow> Inl err
         | Inr (n, v) \<Rightarrow>
             setLoop cond (nSources - 1)
               (if cond then setSource n (st\<lparr>stack := v\<rparr>) else st\<lparr>stack := v\<rparr>))
      else Inr st)"
  by pat_completeness auto
termination
  by (relation "measure (\<lambda>(cond, nSources, st). nat nSources)") auto

text \<open>
  The loop over the arms of a switch (lines 165 to 171). \<^verbatim>\<open>value\<close> is a string or
  \<^verbatim>\<open>undefined\<close>, \<^verbatim>\<open>matchValue\<close> a string, so \<^verbatim>\<open>value === matchValue\<close> is
  \<open>value = Some matchValue\<close>.
\<close>

function armLoop :: "string option \<Rightarrow> int \<Rightarrow> state \<Rightarrow> error + state" where
  "armLoop value nValues st =
     (if nValues > 0 then
        (case string (stack st) of Inl err \<Rightarrow> Inl err
         | Inr (matchValue, v1) \<Rightarrow>
             (case number v1 of Inl err \<Rightarrow> Inl err
              | Inr (nSources, v2) \<Rightarrow>
                  (case setLoop (value = Some matchValue) nSources (st\<lparr>stack := v2\<rparr>) of
                     Inl err \<Rightarrow> Inl err
                   | Inr st' \<Rightarrow> armLoop value (nValues - 1) st')))
      else Inr st)"
  by pat_completeness auto
termination
  by (relation "measure (\<lambda>(value, nValues, st). nat nValues)") auto

text \<open>The branch \<^verbatim>\<open>if (type & SourceExpression.switch)\<close> (lines 147 to 171).\<close>

definition switchExpr :: "state \<Rightarrow> error + state" where
  "switchExpr st =
     (case number (stack st) of Inl err \<Rightarrow> Inl err
      | Inr (nValues, v1) \<Rightarrow>
     (case number v1 of Inl err \<Rightarrow> Inl err
      | Inr (ifFalsy, v2) \<Rightarrow>
     (case truthyString v2 of Inl err \<Rightarrow> Inl err
      | Inr (value, v3) \<Rightarrow>
     (case (if value = None then
              (if ifFalsy = 2 then
                 (case string v3 of Inl err \<Rightarrow> Inl err
                  | Inr (d, v4) \<Rightarrow> Inr (Some d, st\<lparr>stack := v4\<rparr>))
               else if ifFalsy = 0 then Inl StringExpected
               else if ifFalsy = 1 then Inr (None, abort (st\<lparr>stack := v3\<rparr>))
               else Inl Wtf)
            else Inr (value, st\<lparr>stack := v3\<rparr>)) of
        Inl err \<Rightarrow> Inl err
      | Inr (value', st') \<Rightarrow> armLoop value' nValues st'))))"

text \<open>The branch \<^verbatim>\<open>else if (type === SourceExpression.ternary)\<close> (lines 173 to 181).\<close>

definition ternaryExpr :: "state \<Rightarrow> error + state" where
  "ternaryExpr st =
     (case bool (stack st) of (condition, v1) \<Rightarrow>
     (case number v1 of Inl err \<Rightarrow> Inl err
      | Inr (nTrue, v2) \<Rightarrow>
     (case setLoop condition nTrue (st\<lparr>stack := v2\<rparr>) of Inl err \<Rightarrow> Inl err
      | Inr st1 \<Rightarrow>
     (case number (stack st1) of Inl err \<Rightarrow> Inl err
      | Inr (nFalse, v3) \<Rightarrow> setLoop (\<not> condition) nFalse (st1\<lparr>stack := v3\<rparr>)))))"

text \<open>The last branch (lines 183 to 186).\<close>

definition plainExpr :: "state \<Rightarrow> error + state" where
  "plainExpr st =
     (case number (stack st) of Inl err \<Rightarrow> Inl err
      | Inr (nSources, v1) \<Rightarrow> setLoop True nSources (st\<lparr>stack := v1\<rparr>))"

text \<open>
  \<^verbatim>\<open>sourceExpr\<close>: the tag, the dependency part when \<^verbatim>\<open>type & 1\<close>, the boolean part when
  \<^verbatim>\<open>type & 2\<close>, then one of the three branches. The bitwise \<^verbatim>\<open>&\<close> of JavaScript works
  on the two's complement of the integer, as \<open>AND\<close> on \<^typ>\<open>int\<close> does.
\<close>

definition sourceExpr :: "state \<Rightarrow> error + state" where
  "sourceExpr st =
     (case number (stack st) of Inl err \<Rightarrow> Inl err
      | Inr (type, v) \<Rightarrow>
     (case (if type AND 1 \<noteq> 0 then
              (case number v of Inl err \<Rightarrow> Inl err
               | Inr (numDeps, v1) \<Rightarrow> depLoop numDeps (st\<lparr>stack := v1\<rparr>))
            else Inr (st\<lparr>stack := v\<rparr>)) of
        Inl err \<Rightarrow> Inl err
      | Inr st1 \<Rightarrow>
          (let st2 =
             (if type AND 2 \<noteq> 0 then
                (case bool (stack st1) of (b, v2) \<Rightarrow>
                   if \<not> b then abort (st1\<lparr>stack := v2\<rparr>) else st1\<lparr>stack := v2\<rparr>)
              else st1)
           in if type AND 4 \<noteq> 0 then switchExpr st2
              else if type = 0 then ternaryExpr st2
              else plainExpr st2)))"

section \<open>The helper: \<^verbatim>\<open>_classnames\<close> (lines 110 to 128)\<close>

text \<open>
  \<^verbatim>\<open>while (nSources-- > 0) { sourceExpr(stack, isSourceSet, setSource, abort); canSetSource = true; }\<close>
\<close>

function sourceLoop :: "int \<Rightarrow> state \<Rightarrow> error + state" where
  "sourceLoop nSources st =
     (if nSources > 0 then
        (case sourceExpr st of Inl err \<Rightarrow> Inl err
         | Inr st' \<Rightarrow> sourceLoop (nSources - 1) (st'\<lparr>canSetSource := True\<rparr>))
      else Inr st)"
  by pat_completeness auto
termination
  by (relation "measure (\<lambda>(nSources, st). nat nSources)") auto

text \<open>
  \<^verbatim>\<open>while (nOutputs-- > 0) { let c = string(stack); if (boolExpr(stack, isSourceSet)) classes.push(c); }\<close>
\<close>

function outputLoop :: "int \<Rightarrow> state \<Rightarrow> error + state" where
  "outputLoop nOutputs st =
     (if nOutputs > 0 then
        (case string (stack st) of Inl err \<Rightarrow> Inl err
         | Inr (c, v1) \<Rightarrow>
             (case boolExpr v1 (isSourceSet (sources st)) of Inl err \<Rightarrow> Inl err
              | Inr (r, v2) \<Rightarrow>
                  outputLoop (nOutputs - 1)
                    (if truthy r then st\<lparr>stack := v2, classes := classes st @ [c]\<rparr>
                     else st\<lparr>stack := v2\<rparr>)))
      else Inr st)"
  by pat_completeness auto
termination
  by (relation "measure (\<lambda>(nOutputs, st). nat nOutputs)") auto

text \<open>\<^verbatim>\<open>classes.join(sep)\<close> on an array of strings.\<close>

fun join :: "string \<Rightarrow> string list \<Rightarrow> string" where
  "join sep [] = []"
| "join sep [x] = x"
| "join sep (x # y # ys) = x @ sep @ join sep (y # ys)"

text \<open>
  \<^verbatim>\<open>_classnames\<close> in two parts. Lines 111 to 122: the two counts are read and the source
  expressions run from the empty table, the empty list of classes and
  \<^verbatim>\<open>canSetSource = true\<close>; what the second part needs is \<^verbatim>\<open>nOutputs\<close> and the state.
\<close>

definition sourcePass :: "jsval list \<Rightarrow> error + (int \<times> state)" where
  "sourcePass stack0 =
     (case number stack0 of Inl err \<Rightarrow> Inl err
      | Inr (nSources, v1) \<Rightarrow>
     (case number v1 of Inl err \<Rightarrow> Inl err
      | Inr (nOutputs, v2) \<Rightarrow>
     (case sourceLoop nSources
             \<lparr>stack = v2, sources = {}, classes = [], canSetSource = True\<rparr> of
        Inl err \<Rightarrow> Inl err
      | Inr st1 \<Rightarrow> Inr (nOutputs, st1))))"

text \<open>Lines 123 to 127: the output expressions, and \<^verbatim>\<open>return classes.join(" ")\<close>.\<close>

definition classnames :: "jsval list \<Rightarrow> error + string" where
  "classnames stack0 =
     (case sourcePass stack0 of Inl err \<Rightarrow> Inl err
      | Inr (nOutputs, st1) \<Rightarrow>
     (case outputLoop nOutputs st1 of Inl err \<Rightarrow> Inl err
      | Inr st2 \<Rightarrow> Inr (join '' '' (classes st2))))"

section \<open>The layout of well-formed input\<close>

text \<open>
  The header comment of \<^verbatim>\<open>classnames.ts\<close> gives the layout of each arm of a string
  switch: the string that can be returned, the number of source styles set, and their
  indexes. \<open>encArms\<close> lays a list of arms out in that form; \<open>matched\<close> collects the indexes
  of the arms whose string is the value of the switch.
\<close>

definition encArm :: "string \<times> int list \<Rightarrow> jsval list" where
  "encArm a = JStr (fst a) # JNum (int (length (snd a))) # map JNum (snd a)"

definition encArms :: "(string \<times> int list) list \<Rightarrow> jsval list" where
  "encArms arms = concat (map encArm arms)"

definition matched :: "string option \<Rightarrow> (string \<times> int list) list \<Rightarrow> int list" where
  "matched value arms = concat (map snd (filter (\<lambda>a. value = Some (fst a)) arms))"

section \<open>The output pass as a list of values\<close>

text \<open>
  The output pass in the words of the specification: for each of the declared output
  expressions, read one class name, then evaluate one formula. \<open>outputValues\<close> returns the
  class names in the order of the input, each with the boolean of its formula, and the
  stack that is left; \<open>spaceJoined\<close> writes a list of names with one space between
  neighbours.
\<close>

function outputValues ::
  "int \<Rightarrow> jsval list \<Rightarrow> (int \<Rightarrow> jsval) \<Rightarrow> error + ((string \<times> bool) list \<times> jsval list)" where
  "outputValues nOutputs v isSet =
     (if nOutputs > 0 then
        (case string v of Inl err \<Rightarrow> Inl err
         | Inr (c, v1) \<Rightarrow>
             (case boolExpr v1 isSet of Inl err \<Rightarrow> Inl err
              | Inr (r, v2) \<Rightarrow>
                  (case outputValues (nOutputs - 1) v2 isSet of Inl err \<Rightarrow> Inl err
                   | Inr (outs, w) \<Rightarrow> Inr ((c, truthy r) # outs, w))))
      else Inr ([], v))"
  by pat_completeness auto
termination
  by (relation "measure (\<lambda>(nOutputs, v, isSet). nat nOutputs)") auto

declare outputValues.simps [simp del]

definition spaceJoined :: "string list \<Rightarrow> string" where
  "spaceJoined xs = (case xs of [] \<Rightarrow> [] | x # ys \<Rightarrow> x @ concat (map (\<lambda>y. CHR '' '' # y) ys))"

section \<open>The number of invocations of \<^verbatim>\<open>boolExpr\<close>\<close>

text \<open>Every successful invocation of \<^verbatim>\<open>boolExpr\<close> returns a shorter stack.\<close>

lemma boolExpr_consumes:
  "boolExpr v isSet = Inr (r, w) \<Longrightarrow> length w < length v"
  "andLoop n res v isSet = Inr (r, w) \<Longrightarrow> length w \<le> length v"
  "orLoop n res v isSet = Inr (r, w) \<Longrightarrow> length w \<le> length v"
proof (induction v isSet and n res v isSet and n res v isSet arbitrary: r w and r w and r w
    rule: boolExpr_andLoop_orLoop.induct)
  case (1 v isSet)
  then show ?case
    by (auto simp: boolExpr.simps [of v] dest!: number_length split: sum.splits if_splits)
       fastforce+
next
  case (2 nAnds result v isSet)
  then show ?case
    by (auto simp: andLoop.simps [of nAnds] split: sum.splits if_splits) fastforce+
next
  case (3 nOrs result v isSet)
  then show ?case
    by (auto simp: orLoop.simps [of nOrs] split: sum.splits if_splits) fastforce+
qed

text \<open>
  \<open>boolExprCalls\<close> follows the recursion of \<^verbatim>\<open>boolExpr\<close> and counts its invocations: one
  for the call itself, and those of the calls it makes until it returns or throws.
\<close>

function boolExprCalls :: "jsval list \<Rightarrow> (int \<Rightarrow> jsval) \<Rightarrow> nat"
  and andLoopCalls :: "int \<Rightarrow> jsval list \<Rightarrow> (int \<Rightarrow> jsval) \<Rightarrow> nat"
  and orLoopCalls :: "int \<Rightarrow> jsval list \<Rightarrow> (int \<Rightarrow> jsval) \<Rightarrow> nat"
where
  "boolExprCalls v isSet =
     1 + (case number v of Inl err \<Rightarrow> 0
          | Inr (type, v1) \<Rightarrow>
              if type = - 1 then boolExprCalls v1 isSet
              else if type = - 3 then
                (case number v1 of Inl err \<Rightarrow> 0 | Inr (nAnds, v2) \<Rightarrow> andLoopCalls nAnds v2 isSet)
              else if type = - 2 then
                (case number v1 of Inl err \<Rightarrow> 0 | Inr (nOrs, v2) \<Rightarrow> orLoopCalls nOrs v2 isSet)
              else 0)"
| "andLoopCalls nAnds v isSet =
     (if nAnds > 0 then
        boolExprCalls v isSet +
        (case boolExpr v isSet of Inl err \<Rightarrow> 0
         | Inr (nextResult, v') \<Rightarrow> andLoopCalls (nAnds - 1) v' isSet)
      else 0)"
| "orLoopCalls nOrs v isSet =
     (if nOrs > 0 then
        boolExprCalls v isSet +
        (case boolExpr v isSet of Inl err \<Rightarrow> 0
         | Inr (nextResult, v') \<Rightarrow> orLoopCalls (nOrs - 1) v' isSet)
      else 0)"
  by pat_completeness auto
termination
  by (relation "measure (\<lambda>x. case x of
          Inl (v, _) \<Rightarrow> 2 * length v
        | Inr (Inl (_, v, _)) \<Rightarrow> 2 * length v + 1
        | Inr (Inr (_, v, _)) \<Rightarrow> 2 * length v + 1)")
     (auto dest!: number_length boolExpr_consumes(1))

declare boolExprCalls.simps [simp del] andLoopCalls.simps [simp del] orLoopCalls.simps [simp del]

section \<open>The loops on well-formed input\<close>

declare depLoop.simps [simp del] setLoop.simps [simp del] armLoop.simps [simp del]
  sourceLoop.simps [simp del] outputLoop.simps [simp del]

lemma setLoop_indexes:
  "stack st = map JNum ixs @ v \<Longrightarrow>
   setLoop c (int (length ixs)) st =
     Inr (if c \<and> canSetSource st
          then st\<lparr>stack := v, sources := sources st \<union> set ixs\<rparr>
          else st\<lparr>stack := v\<rparr>)"
proof (induction ixs arbitrary: st)
  case Nil
  then show ?case by (simp add: setLoop.simps)
next
  case (Cons i ixs)
  let ?st' = "if c then setSource i (st\<lparr>stack := map JNum ixs @ v\<rparr>)
              else st\<lparr>stack := map JNum ixs @ v\<rparr>"
  have "setLoop c (int (length (i # ixs))) st = setLoop c (int (length ixs)) ?st'"
    using Cons.prems by (subst setLoop.simps) simp
  moreover have "stack ?st' = map JNum ixs @ v"
    by (simp add: setSource_def)
  ultimately show ?case
    by (simp add: Cons.IH setSource_def)
qed

lemma depLoop_indexes:
  "stack st = map JNum deps @ v \<Longrightarrow>
   depLoop (int (length deps)) st =
     Inr (st\<lparr>stack := v, canSetSource := canSetSource st \<and> set deps \<subseteq> sources st\<rparr>)"
proof (induction deps arbitrary: st)
  case Nil
  then show ?case by (simp add: depLoop.simps)
next
  case (Cons d deps)
  let ?st' = "if \<not> truthy (isSourceSet (sources st) d)
              then abort (st\<lparr>stack := map JNum deps @ v\<rparr>)
              else st\<lparr>stack := map JNum deps @ v\<rparr>"
  have "depLoop (int (length (d # deps))) st = depLoop (int (length deps)) ?st'"
    using Cons.prems by (subst depLoop.simps) simp
  moreover have "stack ?st' = map JNum deps @ v"
    by (simp add: abort_def)
  ultimately show ?case
    by (simp add: Cons.IH abort_def isSourceSet_def)
qed

lemma armLoop_arms:
  "stack st = encArms arms @ v \<Longrightarrow>
   armLoop value (int (length arms)) st =
     Inr (if canSetSource st
          then st\<lparr>stack := v, sources := sources st \<union> set (matched value arms)\<rparr>
          else st\<lparr>stack := v\<rparr>)"
proof (induction arms arbitrary: st)
  case Nil
  then show ?case by (simp add: armLoop.simps encArms_def matched_def)
next
  case (Cons a arms)
  obtain m ixs where a: "a = (m, ixs)" by (cases a)
  let ?st1 = "st\<lparr>stack := map JNum ixs @ encArms arms @ v\<rparr>"
  let ?st2 = "if value = Some m \<and> canSetSource st
              then st\<lparr>stack := encArms arms @ v, sources := sources st \<union> set ixs\<rparr>
              else st\<lparr>stack := encArms arms @ v\<rparr>"
  have inner: "setLoop (value = Some m) (int (length ixs)) ?st1 = Inr ?st2"
    by (subst setLoop_indexes [where v = "encArms arms @ v"]) simp_all
  have "armLoop value (int (length (a # arms))) st = armLoop value (int (length arms)) ?st2"
    using Cons.prems
    by (subst armLoop.simps) (simp add: a encArms_def encArm_def string_def inner [unfolded encArms_def])
  moreover have "stack ?st2 = encArms arms @ v"
    by simp
  ultimately show ?case
    by (auto simp add: Cons.IH a matched_def Un_assoc)
qed

lemma int_toString_0: "int_toString 0 = ''0''"
  by (simp add: int_toString_def nat_toString.simps digit_char_def)

lemma sourceLoop_step:
  "0 < n \<Longrightarrow> sourceLoop n st =
     (case sourceExpr st of Inl err \<Rightarrow> Inl err
      | Inr st' \<Rightarrow> sourceLoop (n - 1) (st'\<lparr>canSetSource := True\<rparr>))"
  by (subst sourceLoop.simps) simp

lemma sourceLoop_append:
  "0 \<le> k \<Longrightarrow>
   sourceLoop (int i + k) st =
     (case sourceLoop (int i) st of Inl err \<Rightarrow> Inl err | Inr st' \<Rightarrow> sourceLoop k st')"
proof (induction i arbitrary: st)
  case 0
  then show ?case by (simp add: sourceLoop.simps [of 0])
next
  case (Suc i)
  have eq: "int (Suc i) + k - 1 = int i + k" "int (Suc i) - 1 = int i"
    by simp_all
  show ?case
    using Suc.prems
    by (simp only: sourceLoop_step [of "int (Suc i) + k"] sourceLoop_step [of "int (Suc i)"] eq)
       (simp add: Suc.IH split: sum.splits)
qed

lemma setLoop_stack_indep:
  "stack st = stack st' \<Longrightarrow>
   map_sum (\<lambda>err. err) stack (setLoop c n st) = map_sum (\<lambda>err. err) stack (setLoop c' n st')"
proof (induction c n st arbitrary: st' rule: setLoop.induct)
  case (1 cond nSources st)
  show ?case
  proof (cases "nSources > 0")
    case False
    with "1.prems" show ?thesis by (simp add: setLoop.simps)
  next
    case True
    show ?thesis
    proof (cases "number (stack st)")
      case (Inl err)
      with True "1.prems" show ?thesis by (simp add: setLoop.simps [of _ nSources])
    next
      case (Inr p)
      obtain n v where p: "p = (n, v)" by (cases p)
      let ?a = "if cond then setSource n (st\<lparr>stack := v\<rparr>) else st\<lparr>stack := v\<rparr>"
      let ?b = "if c' then setSource n (st'\<lparr>stack := v\<rparr>) else st'\<lparr>stack := v\<rparr>"
      have "stack ?a = stack ?b" by (simp add: setSource_def)
      from "1.IH" [OF True Inr [unfolded p] refl this]
      show ?thesis
        using True Inr p "1.prems" by (simp add: setLoop.simps [of _ nSources])
    qed
  qed
qed

lemma join_spaceJoined: "join '' '' xs = spaceJoined xs"
  by (induction "'' ''" xs rule: join.induct) (simp_all add: spaceJoined_def)

lemma setLoop_classes: "setLoop c n st = Inr st' \<Longrightarrow> classes st' = classes st"
proof (induction c n st rule: setLoop.induct)
  case (1 cond nSources st)
  show ?case
  proof (cases "nSources > 0")
    case False
    with "1.prems" show ?thesis by (simp add: setLoop.simps)
  next
    case True
    from True "1.prems" obtain n v where
      num: "number (stack st) = Inr (n, v)" and
      rest: "setLoop cond (nSources - 1)
               (if cond then setSource n (st\<lparr>stack := v\<rparr>) else st\<lparr>stack := v\<rparr>) = Inr st'"
      by (subst (asm) setLoop.simps) (auto split: sum.splits)
    from "1.IH" [OF True num refl rest] show ?thesis
      by (simp add: setSource_def split: if_splits)
  qed
qed

lemma depLoop_classes: "depLoop n st = Inr st' \<Longrightarrow> classes st' = classes st"
proof (induction n st rule: depLoop.induct)
  case (1 numDeps st)
  show ?case
  proof (cases "numDeps > 0")
    case False
    with "1.prems" show ?thesis by (simp add: depLoop.simps)
  next
    case True
    from True "1.prems" obtain d v where
      num: "number (stack st) = Inr (d, v)" and
      rest: "depLoop (numDeps - 1)
               (if \<not> truthy (isSourceSet (sources st) d)
                then abort (st\<lparr>stack := v\<rparr>) else st\<lparr>stack := v\<rparr>) = Inr st'"
      by (subst (asm) depLoop.simps) (auto split: sum.splits)
    from "1.IH" [OF True num refl rest] show ?thesis
      by (simp add: abort_def split: if_splits)
  qed
qed

lemma armLoop_classes: "armLoop value n st = Inr st' \<Longrightarrow> classes st' = classes st"
proof (induction "value" n st rule: armLoop.induct)
  case (1 "value" nValues st)
  show ?case
  proof (cases "nValues > 0")
    case False
    with "1.prems" show ?thesis by (simp add: armLoop.simps)
  next
    case True
    from True "1.prems" obtain m v1 n v2 st1 where
      str: "string (stack st) = Inr (m, v1)" and
      num: "number v1 = Inr (n, v2)" and
      inner: "setLoop (value = Some m) n (st\<lparr>stack := v2\<rparr>) = Inr st1" and
      rest: "armLoop value (nValues - 1) st1 = Inr st'"
      by (subst (asm) armLoop.simps) (auto split: sum.splits)
    from "1.IH" [OF True str refl num refl inner rest] setLoop_classes [OF inner]
    show ?thesis by simp
  qed
qed

lemma sourceExpr_classes: "sourceExpr st = Inr st' \<Longrightarrow> classes st' = classes st"
  by (auto simp: sourceExpr_def switchExpr_def ternaryExpr_def plainExpr_def bool_def
        abort_def Let_def
      split: sum.splits if_splits prod.splits
      dest!: setLoop_classes depLoop_classes armLoop_classes)

lemma sourceLoop_classes: "sourceLoop n st = Inr st' \<Longrightarrow> classes st' = classes st"
proof (induction n st rule: sourceLoop.induct)
  case (1 nSources st)
  show ?case
  proof (cases "nSources > 0")
    case False
    with "1.prems" show ?thesis by (simp add: sourceLoop.simps)
  next
    case True
    from True "1.prems" obtain st1 where
      one: "sourceExpr st = Inr st1" and
      rest: "sourceLoop (nSources - 1) (st1\<lparr>canSetSource := True\<rparr>) = Inr st'"
      by (subst (asm) sourceLoop.simps) (auto split: sum.splits)
    from "1.IH" [OF True one rest] sourceExpr_classes [OF one] show ?thesis by simp
  qed
qed

lemma sourcePass_classes: "sourcePass v0 = Inr (nOutputs, st1) \<Longrightarrow> classes st1 = []"
  by (auto simp: sourcePass_def split: sum.splits dest!: sourceLoop_classes)

lemma outputLoop_outputValues:
  "outputLoop n st =
     (case outputValues n (stack st) (isSourceSet (sources st)) of Inl err \<Rightarrow> Inl err
      | Inr (outs, w) \<Rightarrow> Inr (st\<lparr>stack := w, classes := classes st @ map fst (filter snd outs)\<rparr>))"
proof (induction n st rule: outputLoop.induct)
  case (1 nOutputs st)
  show ?case
  proof (cases "nOutputs > 0")
    case False
    then show ?thesis by (simp add: outputLoop.simps outputValues.simps)
  next
    case True
    show ?thesis
    proof (cases "string (stack st)")
      case (Inl err)
      with True show ?thesis
        by (simp add: outputLoop.simps [of nOutputs] outputValues.simps [of nOutputs])
    next
      case (Inr p)
      obtain c v1 where p: "p = (c, v1)" by (cases p)
      show ?thesis
      proof (cases "boolExpr v1 (isSourceSet (sources st))")
        case (Inl err)
        with True Inr p show ?thesis
          by (simp add: outputLoop.simps [of nOutputs] outputValues.simps [of nOutputs])
      next
        case b: (Inr q)
        obtain r v2 where q: "q = (r, v2)" by (cases q)
        from "1.IH" [OF True Inr [unfolded p] refl b [unfolded q] refl]
        show ?thesis
          using True Inr p b q
          by (simp add: outputLoop.simps [of nOutputs] outputValues.simps [of nOutputs]
              split: sum.splits)
      qed
    qed
  qed
qed

lemma boolExprCalls_bound:
  "(\<forall>r w. boolExpr v isSet = Inr (r, w) \<longrightarrow> boolExprCalls v isSet + length w \<le> length v)
   \<and> boolExprCalls v isSet \<le> Suc (length v)"
  "(\<forall>res r w. andLoop n res v isSet = Inr (r, w) \<longrightarrow> andLoopCalls n v isSet + length w \<le> length v)
   \<and> andLoopCalls n v isSet \<le> Suc (length v)"
  "(\<forall>res r w. orLoop n res v isSet = Inr (r, w) \<longrightarrow> orLoopCalls n v isSet + length w \<le> length v)
   \<and> orLoopCalls n v isSet \<le> Suc (length v)"
proof (induction v isSet and n v isSet and n v isSet
    rule: boolExprCalls_andLoopCalls_orLoopCalls.induct)
  case (1 v isSet)
  show ?case
  proof (cases "number v")
    case (Inl err)
    then show ?thesis by (simp add: boolExprCalls.simps [of v] boolExpr.simps [of v])
  next
    case (Inr p)
    obtain type v1 where p: "p = (type, v1)" by (cases p)
    note num = Inr [unfolded p]
    have len: "length v = Suc (length v1)" using num by (rule number_length)
    consider (neg) "type = - 1" | (conj) "type = - 3" | (disj) "type = - 2"
      | (ref) "type \<noteq> - 1" "type \<noteq> - 3" "type \<noteq> - 2" by blast
    then show ?thesis
    proof cases
      case neg
      from "1.IH"(1) [OF num refl neg] show ?thesis
        using num neg len
        by (auto simp: boolExprCalls.simps [of v] boolExpr.simps [of v] split: sum.splits)
    next
      case conj
      show ?thesis
      proof (cases "number v1")
        case (Inl err)
        with num conj show ?thesis
          by (simp add: boolExprCalls.simps [of v] boolExpr.simps [of v])
      next
        case (Inr q)
        obtain nAnds v2 where q: "q = (nAnds, v2)" by (cases q)
        note num1 = Inr [unfolded q]
        have len1: "length v1 = Suc (length v2)" using num1 by (rule number_length)
        from "1.IH"(2) [OF num refl _ _ num1 refl] conj show ?thesis
          using num num1 len len1
          by (auto simp: boolExprCalls.simps [of v] boolExpr.simps [of v]) fastforce+
      qed
    next
      case disj
      show ?thesis
      proof (cases "number v1")
        case (Inl err)
        with num disj show ?thesis
          by (simp add: boolExprCalls.simps [of v] boolExpr.simps [of v])
      next
        case (Inr q)
        obtain nOrs v2 where q: "q = (nOrs, v2)" by (cases q)
        note num1 = Inr [unfolded q]
        have len1: "length v1 = Suc (length v2)" using num1 by (rule number_length)
        from "1.IH"(3) [OF num refl _ _ _ num1 refl] disj show ?thesis
          using num num1 len len1
          by (auto simp: boolExprCalls.simps [of v] boolExpr.simps [of v]) fastforce+
      qed
    next
      case ref
      with num len show ?thesis
        by (simp add: boolExprCalls.simps [of v] boolExpr.simps [of v])
    qed
  qed
next
  case (2 nAnds v isSet)
  show ?case
  proof (cases "nAnds > 0")
    case False
    then show ?thesis by (simp add: andLoopCalls.simps [of nAnds] andLoop.simps [of nAnds])
  next
    case True
    note first = "2.IH"(1) [OF True]
    show ?thesis
    proof (cases "boolExpr v isSet")
      case (Inl err)
      with True first show ?thesis
        by (simp add: andLoopCalls.simps [of nAnds] andLoop.simps [of nAnds])
    next
      case (Inr q)
      obtain nextResult v' where q: "q = (nextResult, v')" by (cases q)
      note b = Inr [unfolded q]
      from first b have c1: "boolExprCalls v isSet + length v' \<le> length v" by blast
      from "2.IH"(2) [OF True b refl] c1 show ?thesis
        using True b
        by (auto simp: andLoopCalls.simps [of nAnds] andLoop.simps [of nAnds]) fastforce+
    qed
  qed
next
  case (3 nOrs v isSet)
  show ?case
  proof (cases "nOrs > 0")
    case False
    then show ?thesis by (simp add: orLoopCalls.simps [of nOrs] orLoop.simps [of nOrs])
  next
    case True
    note first = "3.IH"(1) [OF True]
    show ?thesis
    proof (cases "boolExpr v isSet")
      case (Inl err)
      with True first show ?thesis
        by (simp add: orLoopCalls.simps [of nOrs] orLoop.simps [of nOrs])
    next
      case (Inr q)
      obtain nextResult v' where q: "q = (nextResult, v')" by (cases q)
      note b = Inr [unfolded q]
      from first b have c1: "boolExprCalls v isSet + length v' \<le> length v" by blast
      from "3.IH"(2) [OF True b refl] c1 show ?thesis
        using True b
        by (auto simp: orLoopCalls.simps [of nOrs] orLoop.simps [of nOrs]) fastforce+
    qed
  qed
qed

lemma boolean_suppressed:
  "\<not> truthy b \<Longrightarrow>
   sourceExpr (st\<lparr>stack := JNum 2 # b # JNum (int (length xs)) # map JNum xs @ w\<rparr>) =
     Inr (st\<lparr>stack := w, canSetSource := False\<rparr>)"
  by (simp add: sourceExpr_def plainExpr_def bool_def abort_def setLoop_indexes [where v = w])

lemma dependency_suppressed:
  "\<not> set deps \<subseteq> sources st \<Longrightarrow>
   sourceExpr (st\<lparr>stack := JNum 1 # JNum (int (length deps)) # map JNum deps
                        @ JNum (int (length xs)) # map JNum xs @ w\<rparr>) =
     Inr (st\<lparr>stack := w, canSetSource := False\<rparr>)"
  by (simp add: sourceExpr_def plainExpr_def
      depLoop_indexes [where v = "JNum (int (length xs)) # map JNum xs @ w"]
      setLoop_indexes [where v = w])

lemma switch_suppressed:
  "\<not> truthy d \<Longrightarrow> d \<noteq> JNum 0 \<Longrightarrow>
   sourceExpr (st\<lparr>stack := JNum 4 # JNum (int (length arms)) # JNum 1 # d
                        # encArms arms @ w\<rparr>) =
     Inr (st\<lparr>stack := w, canSetSource := False\<rparr>)"
  by (simp add: sourceExpr_def switchExpr_def truthyString_def abort_def armLoop_arms)

section \<open>The claims\<close>

subsection \<open>C1: a negative tag other than -1, -2 and -3\<close>

text \<open>
  C1 is the statement that a formula whose tag is a negative integer other than \<open>-1\<close>,
  \<open>-2\<close> and \<open>-3\<close> fails with a decode error. \<^verbatim>\<open>boolExpr\<close> has no such case: its
  \<^verbatim>\<open>default\<close> branch returns \<^verbatim>\<open>isSourceSet(type)\<close> for every other number, negative or
  not. What holds: for every tag other than \<open>-1\<close>, \<open>-2\<close> and \<open>-3\<close>, \<^verbatim>\<open>boolExpr\<close> consumes
  the tag alone and returns the entry of the table at that index, without failing.
\<close>

theorem boolExpr_other_tag:
  "t \<noteq> - 1 \<Longrightarrow> t \<noteq> - 2 \<Longrightarrow> t \<noteq> - 3 \<Longrightarrow> boolExpr (JNum t # v) isSet = Inr (isSet t, v)"
  by (simp add: boolExpr.simps)

theorem boolExpr_other_tag_witness:
  "boolExpr (JNum (- 4) # [JStr ''x'']) (isSourceSet {- 4}) = Inr (JBool True, [JStr ''x''])"
  using boolExpr_other_tag [of "- 4" "[JStr ''x'']" "isSourceSet {- 4}"]
  by (simp add: isSourceSet_def)

text \<open>
  C1 as stated fails at the tag \<open>-4\<close>: the formula \<open>-4\<close> returns \<^verbatim>\<open>undefined\<close>, and the
  helper returns the class of the output expression \<^verbatim>\<open>"a", -1, -4\<close>.
\<close>

theorem boolExpr_negative_tag_returns:
  "boolExpr [JNum (- 4)] (isSourceSet {}) = Inr (JUndefined, [])
   \<and> classnames [JNum 0, JNum 1, JStr ''a'', JNum (- 1), JNum (- 4)] = Inr ''a''"
  by code_simp

subsection \<open>C2: the readers on an empty stack\<close>

text \<open>
  C2 is the statement that each of the four readers fails on an empty stack. Two of them
  do: \<^verbatim>\<open>number\<close> throws (\<^verbatim>\<open>typeof undefined\<close> is not \<^verbatim>\<open>"number"\<close>) and \<^verbatim>\<open>string\<close> throws
  the \<^verbatim>\<open>TypeError\<close> of \<^verbatim>\<open>undefined.toString()\<close>. The other two return: \<^verbatim>\<open>bool\<close> gives
  \<^verbatim>\<open>!!undefined\<close>, which is false, and \<^verbatim>\<open>truthyString\<close> gives \<^verbatim>\<open>undefined\<close> (absent); the
  stack stays empty. What holds: on an empty stack \<^verbatim>\<open>number\<close> and \<^verbatim>\<open>string\<close> fail,
  \<^verbatim>\<open>bool\<close> returns false and \<^verbatim>\<open>truthyString\<close> returns absent.
\<close>

theorem readers_on_empty:
  "number [] = Inl NotANumber \<and> string [] = Inl TypeError
   \<and> bool [] = (False, []) \<and> truthyString [] = Inr (None, [])"
  by (simp add: bool_def truthyString_def string_def)

text \<open>C2 as stated fails for \<^verbatim>\<open>bool\<close> and for \<^verbatim>\<open>truthyString\<close>.\<close>

theorem bool_on_empty_returns:
  "bool [] = (False, []) \<and> truthyString [] = Inr (None, [])"
  by (simp add: bool_def truthyString_def)

subsection \<open>C3: the number zero as the value of a switch\<close>

text \<open>
  C3: \<^verbatim>\<open>truthyString\<close> returns absent when the front value is the empty string,
  \<^verbatim>\<open>false\<close>, \<^verbatim>\<open>undefined\<close>, \<^verbatim>\<open>null\<close> or missing, and the string \<^verbatim>\<open>"0"\<close> when it is the
  number zero. So a switch (tag 4, any falsy policy \<open>p\<close>) whose value is the number zero sets
  the indexes of exactly the arms whose string is \<^verbatim>\<open>"0"\<close> (when setting is not suppressed),
  and consumes all its arms.
\<close>

theorem truthyString_zero_present:
  "truthyString (JStr [] # v) = Inr (None, v)
   \<and> truthyString (JBool False # v) = Inr (None, v)
   \<and> truthyString (JUndefined # v) = Inr (None, v)
   \<and> truthyString (JNull # v) = Inr (None, v)
   \<and> truthyString [] = Inr (None, [])
   \<and> truthyString (JNum 0 # v) = Inr (Some ''0'', v)
   \<and> sourceExpr (st\<lparr>stack := JNum 4 # JNum (int (length arms)) # JNum p # JNum 0
                          # encArms arms @ v\<rparr>) =
       Inr (if canSetSource st
            then st\<lparr>stack := v, sources := sources st \<union> set (matched (Some ''0'') arms)\<rparr>
            else st\<lparr>stack := v\<rparr>)"
  by (simp add: truthyString_def int_toString_0 sourceExpr_def switchExpr_def armLoop_arms)

subsection \<open>C4: the result is the names of the true output expressions\<close>

text \<open>
  C4: when the helper succeeds, its result is the class names of exactly the output
  expressions whose formula is true, in the order of the input, with one space between
  neighbours, and the empty string when there is none; and the helper fails exactly when
  the source pass or the reading of the output expressions fails.
\<close>

theorem classnames_space_joined:
  "classnames stack0 =
     (case sourcePass stack0 of Inl err \<Rightarrow> Inl err
      | Inr (nOutputs, st1) \<Rightarrow>
     (case outputValues nOutputs (stack st1) (isSourceSet (sources st1)) of Inl err \<Rightarrow> Inl err
      | Inr (outs, w) \<Rightarrow> Inr (spaceJoined (map fst (filter snd outs)))))"
  by (auto simp: classnames_def outputLoop_outputValues join_spaceJoined
      split: sum.splits dest: sourcePass_classes)

subsection \<open>C5: suppression ends with its source expression\<close>

text \<open>
  C5: suppression is scoped to one source expression. Whatever the first \<open>i\<close> source
  expressions did, and whether or not expression \<open>i + 1\<close> called \<^verbatim>\<open>abort\<close> (the state \<open>s1\<close>
  it leaves may have \<^verbatim>\<open>canSetSource\<close> false), expression \<open>i + 2\<close> runs from that state with
  \<^verbatim>\<open>canSetSource\<close> true again, and so does every later one. For each of the three ways to
  suppress (a boolean that reads false, a dependency that is not set, a switch with no
  value and the policy \<^verbatim>\<open>unset\<close>), the expressions after a suppressed expression run as if
  it were not in the input: from the same table, with \<^verbatim>\<open>canSetSource\<close> true.
\<close>

theorem suppression_scoped:
  assumes "0 \<le> i" and "0 < k"
  shows "sourceLoop (i + 1 + k) st =
     (case sourceLoop i st of Inl err \<Rightarrow> Inl err
      | Inr s0 \<Rightarrow>
     (case sourceExpr s0 of Inl err \<Rightarrow> Inl err
      | Inr s1 \<Rightarrow>
     (case sourceExpr (s1\<lparr>canSetSource := True\<rparr>) of Inl err \<Rightarrow> Inl err
      | Inr s2 \<Rightarrow> sourceLoop (k - 1) (s2\<lparr>canSetSource := True\<rparr>))))
   \<and> (\<not> truthy b \<longrightarrow>
        sourceLoop (1 + k)
          (st\<lparr>stack := JNum 2 # b # JNum (int (length xs)) # map JNum xs @ w\<rparr>) =
        sourceLoop k (st\<lparr>stack := w, canSetSource := True\<rparr>))
   \<and> (\<not> set deps \<subseteq> sources st \<longrightarrow>
        sourceLoop (1 + k)
          (st\<lparr>stack := JNum 1 # JNum (int (length deps)) # map JNum deps
                        @ JNum (int (length xs)) # map JNum xs @ w\<rparr>) =
        sourceLoop k (st\<lparr>stack := w, canSetSource := True\<rparr>))
   \<and> (\<not> truthy d \<and> d \<noteq> JNum 0 \<longrightarrow>
        sourceLoop (1 + k)
          (st\<lparr>stack := JNum 4 # JNum (int (length arms)) # JNum 1 # d # encArms arms @ w\<rparr>) =
        sourceLoop k (st\<lparr>stack := w, canSetSource := True\<rparr>))"
proof (intro conjI impI)
  from assms obtain j where i: "i = int j"
    using nonneg_int_cases by blast
  have "sourceLoop (i + 1 + k) st =
        (case sourceLoop i st of Inl err \<Rightarrow> Inl err | Inr s0 \<Rightarrow> sourceLoop (1 + k) s0)"
    using assms sourceLoop_append [of "1 + k" j st] by (simp add: i add.assoc)
  moreover have "sourceLoop (1 + k) s0 =
     (case sourceExpr s0 of Inl err \<Rightarrow> Inl err
      | Inr s1 \<Rightarrow>
     (case sourceExpr (s1\<lparr>canSetSource := True\<rparr>) of Inl err \<Rightarrow> Inl err
      | Inr s2 \<Rightarrow> sourceLoop (k - 1) (s2\<lparr>canSetSource := True\<rparr>)))" for s0
    using assms
    by (simp add: sourceLoop_step [of "1 + k"] sourceLoop_step [of k] split: sum.splits)
  ultimately show "sourceLoop (i + 1 + k) st =
     (case sourceLoop i st of Inl err \<Rightarrow> Inl err
      | Inr s0 \<Rightarrow>
     (case sourceExpr s0 of Inl err \<Rightarrow> Inl err
      | Inr s1 \<Rightarrow>
     (case sourceExpr (s1\<lparr>canSetSource := True\<rparr>) of Inl err \<Rightarrow> Inl err
      | Inr s2 \<Rightarrow> sourceLoop (k - 1) (s2\<lparr>canSetSource := True\<rparr>))))"
    by (simp split: sum.splits)
next
  assume "\<not> truthy b"
  then show "sourceLoop (1 + k)
          (st\<lparr>stack := JNum 2 # b # JNum (int (length xs)) # map JNum xs @ w\<rparr>) =
        sourceLoop k (st\<lparr>stack := w, canSetSource := True\<rparr>)"
    using assms by (simp add: sourceLoop_step [of "1 + k"] boolean_suppressed)
next
  assume "\<not> set deps \<subseteq> sources st"
  then show "sourceLoop (1 + k)
          (st\<lparr>stack := JNum 1 # JNum (int (length deps)) # map JNum deps
                        @ JNum (int (length xs)) # map JNum xs @ w\<rparr>) =
        sourceLoop k (st\<lparr>stack := w, canSetSource := True\<rparr>)"
    using assms by (simp add: sourceLoop_step [of "1 + k"] dependency_suppressed)
next
  assume "\<not> truthy d \<and> d \<noteq> JNum 0"
  then show "sourceLoop (1 + k)
          (st\<lparr>stack := JNum 4 # JNum (int (length arms)) # JNum 1 # d # encArms arms @ w\<rparr>) =
        sourceLoop k (st\<lparr>stack := w, canSetSource := True\<rparr>)"
    using assms by (simp add: sourceLoop_step [of "1 + k"] switch_suppressed)
qed

text \<open>
  A suppressed expression that would set style 7 (a boolean that reads false, a
  dependency on the unset style 5, a switch with the empty string as its value), followed
  by a boolean that reads true and sets style 8: style 8 is set, style 7 is not.
\<close>

theorem suppression_scoped_witness:
  "sourceLoop (0 + 1 + 1)
     \<lparr>stack = [JNum 2, JBool False, JNum 1, JNum 7, JNum 2, JBool True, JNum 1, JNum 8],
      sources = {}, classes = [], canSetSource = True\<rparr> =
   Inr \<lparr>stack = [], sources = {8}, classes = [], canSetSource = True\<rparr>
   \<and> sourceLoop (1 + 1)
     \<lparr>stack = [JNum 1, JNum 1, JNum 5, JNum 1, JNum 7, JNum 2, JBool True, JNum 1, JNum 8],
      sources = {}, classes = [], canSetSource = True\<rparr> =
   Inr \<lparr>stack = [], sources = {8}, classes = [], canSetSource = True\<rparr>
   \<and> sourceLoop (1 + 1)
     \<lparr>stack = [JNum 4, JNum 1, JNum 1, JStr [], JStr ''red'', JNum 1, JNum 7,
               JNum 2, JBool True, JNum 1, JNum 8],
      sources = {}, classes = [], canSetSource = True\<rparr> =
   Inr \<lparr>stack = [], sources = {8}, classes = [], canSetSource = True\<rparr>"
proof -
  let ?second = "[JNum 2, JBool True, JNum 1, JNum 8]"
  let ?st = "\<lparr>stack = [], sources = {}, classes = [], canSetSource = True\<rparr>"
  have ik: "(0::int) \<le> 0" "(0::int) < 1" by simp_all
  have second: "sourceLoop 1 (?st\<lparr>stack := ?second, canSetSource := True\<rparr>) =
      Inr \<lparr>stack = [], sources = {8}, classes = [], canSetSource = True\<rparr>"
    by (simp add: sourceLoop.simps sourceExpr_def plainExpr_def bool_def setLoop.simps
        setSource_def)
  note inst = suppression_scoped [OF ik, where st = ?st and b = "JBool False" and xs = "[7]"
      and w = ?second and deps = "[5]" and d = "JStr []" and arms = "[(''red'', [7])]"]
  from inst second show ?thesis
    by (simp add: encArms_def encArm_def)
qed

subsection \<open>C6: both branches of a ternary are consumed\<close>

text \<open>
  C6: a ternary (tag 0) with the condition \<open>c\<close>, the true-branch indexes \<open>ts\<close> and the
  false-branch indexes \<open>fs\<close> sets the indexes of the branch the condition selects and no
  other, and leaves the stack that follows the last false-branch index whatever the
  condition is. For any rest \<open>w\<close> of the stack, well-formed or not, two conditions give the
  same outcome up to the table: the same error, or the same stack.
\<close>

theorem ternary_consumes_both_branches:
  "sourceExpr (st\<lparr>stack := JNum 0 # c # JNum (int (length ts)) # map JNum ts
                        @ JNum (int (length fs)) # map JNum fs @ v\<rparr>) =
     Inr (if canSetSource st
          then st\<lparr>stack := v, sources := sources st \<union> set (if truthy c then ts else fs)\<rparr>
          else st\<lparr>stack := v\<rparr>)
   \<and> map_sum (\<lambda>err. err) stack (sourceExpr (st\<lparr>stack := JNum 0 # c # w\<rparr>)) =
     map_sum (\<lambda>err. err) stack (sourceExpr (st\<lparr>stack := JNum 0 # c' # w\<rparr>))"
proof
  show "sourceExpr (st\<lparr>stack := JNum 0 # c # JNum (int (length ts)) # map JNum ts
                        @ JNum (int (length fs)) # map JNum fs @ v\<rparr>) =
     Inr (if canSetSource st
          then st\<lparr>stack := v, sources := sources st \<union> set (if truthy c then ts else fs)\<rparr>
          else st\<lparr>stack := v\<rparr>)"
    by (simp add: sourceExpr_def ternaryExpr_def bool_def
        setLoop_indexes [where v = "JNum (int (length fs)) # map JNum fs @ v"]
        setLoop_indexes [where v = v])
next
  have tern: "map_sum (\<lambda>err. err) stack (ternaryExpr (st\<lparr>stack := a # w\<rparr>)) =
              map_sum (\<lambda>err. err) stack (ternaryExpr (st\<lparr>stack := b # w\<rparr>))" for a b
  proof (cases "number w")
    case (Inl err)
    then show ?thesis by (simp add: ternaryExpr_def bool_def)
  next
    case (Inr p)
    obtain nTrue v2 where p: "p = (nTrue, v2)" by (cases p)
    have first: "map_sum (\<lambda>err. err) stack (setLoop (truthy a) nTrue (st\<lparr>stack := v2\<rparr>)) =
                 map_sum (\<lambda>err. err) stack (setLoop (truthy b) nTrue (st\<lparr>stack := v2\<rparr>))"
      by (rule setLoop_stack_indep) simp
    show ?thesis
    proof (cases "setLoop (truthy a) nTrue (st\<lparr>stack := v2\<rparr>)")
      case (Inl err)
      with first have "setLoop (truthy b) nTrue (st\<lparr>stack := v2\<rparr>) = Inl err"
        by (cases "setLoop (truthy b) nTrue (st\<lparr>stack := v2\<rparr>)") simp_all
      with Inl Inr p show ?thesis by (simp add: ternaryExpr_def bool_def)
    next
      case sa: (Inr sa)
      with first obtain sb where sb: "setLoop (truthy b) nTrue (st\<lparr>stack := v2\<rparr>) = Inr sb"
        and same: "stack sa = stack sb"
        by (cases "setLoop (truthy b) nTrue (st\<lparr>stack := v2\<rparr>)") simp_all
      show ?thesis
      proof (cases "number (stack sb)")
        case (Inl err)
        with sa sb same Inr p show ?thesis by (simp add: ternaryExpr_def bool_def)
      next
        case q: (Inr q)
        obtain nFalse v3 where q': "q = (nFalse, v3)" by (cases q)
        have "map_sum (\<lambda>err. err) stack (setLoop (\<not> truthy a) nFalse (sa\<lparr>stack := v3\<rparr>)) =
              map_sum (\<lambda>err. err) stack (setLoop (\<not> truthy b) nFalse (sb\<lparr>stack := v3\<rparr>))"
          by (rule setLoop_stack_indep) simp
        with sa sb same Inr p q q' show ?thesis by (simp add: ternaryExpr_def bool_def)
      qed
    qed
  qed
  show "map_sum (\<lambda>err. err) stack (sourceExpr (st\<lparr>stack := JNum 0 # c # w\<rparr>)) =
        map_sum (\<lambda>err. err) stack (sourceExpr (st\<lparr>stack := JNum 0 # c' # w\<rparr>))"
    using tern [of c c'] by (simp add: sourceExpr_def)
qed

subsection \<open>C7: a switch with no value and the policy \<^verbatim>\<open>unset\<close>\<close>

text \<open>
  C7: a switch (tag 4, or tag 5 with its dependencies first) whose value is absent and
  whose falsy policy is 1 calls \<^verbatim>\<open>abort\<close>, sets no style, and consumes all its arms: the
  stack left is what follows the last arm, the table is unchanged and \<^verbatim>\<open>canSetSource\<close> is
  false when the expression ends.
\<close>

theorem switch_unset_consumes_arms:
  "\<not> truthy d \<Longrightarrow> d \<noteq> JNum 0 \<Longrightarrow>
   sourceExpr (st\<lparr>stack := JNum 4 # JNum (int (length arms)) # JNum 1 # d
                        # encArms arms @ v\<rparr>) =
     Inr (st\<lparr>stack := v, canSetSource := False\<rparr>)
   \<and> sourceExpr (st\<lparr>stack := JNum 5 # JNum (int (length deps)) # map JNum deps
                       @ JNum (int (length arms)) # JNum 1 # d # encArms arms @ v\<rparr>) =
     Inr (st\<lparr>stack := v, canSetSource := False\<rparr>)"
  by (simp add: sourceExpr_def switchExpr_def truthyString_def abort_def armLoop_arms
     depLoop_indexes [where v = "JNum (int (length arms)) # JNum 1 # d # encArms arms @ v"])

text \<open>
  A switch with the arms \<^verbatim>\<open>"red"\<close> (style 0) and \<^verbatim>\<open>"blue"\<close> (styles 1 and 2), the empty
  string as its value and the policy 1, followed by the number 9.
\<close>

theorem switch_unset_consumes_arms_witness:
  "sourceExpr \<lparr>stack = [JNum 4, JNum 2, JNum 1, JStr [], JStr ''red'', JNum 1, JNum 0,
                       JStr ''blue'', JNum 2, JNum 1, JNum 2, JNum 9],
              sources = {}, classes = [], canSetSource = True\<rparr> =
     Inr \<lparr>stack = [JNum 9], sources = {}, classes = [], canSetSource = False\<rparr>"
  using switch_unset_consumes_arms [where d = "JStr []"
      and st = "\<lparr>stack = [], sources = {}, classes = [], canSetSource = True\<rparr>"
      and arms = "[(''red'', [0]), (''blue'', [1, 2])]" and v = "[JNum 9]" and deps = "[]"]
  by (simp add: encArms_def encArm_def)

subsection \<open>C8: the empty conjunction, the empty disjunction, double negation\<close>

text \<open>
  C8: the formula \<open>-3, 0\<close> is true and the formula \<open>-2, 0\<close> is false; and \<open>-1, -1\<close> in front
  of any formula fails where the formula fails and otherwise leaves the same stack and
  returns the boolean of the formula's value (\<^verbatim>\<open>true\<close> for a truthy value, \<^verbatim>\<open>false\<close> for
  \<^verbatim>\<open>false\<close> and for the \<^verbatim>\<open>undefined\<close> of an unset style).
\<close>

theorem boolExpr_identities:
  "boolExpr (JNum (- 3) # JNum 0 # v) isSet = Inr (JBool True, v)
   \<and> boolExpr (JNum (- 2) # JNum 0 # v) isSet = Inr (JBool False, v)
   \<and> boolExpr (JNum (- 1) # JNum (- 1) # v) isSet =
       (case boolExpr v isSet of Inl err \<Rightarrow> Inl err | Inr (r, w) \<Rightarrow> Inr (JBool (truthy r), w))"
  by (simp add: boolExpr.simps [of "_ # _"] andLoop.simps orLoop.simps split: sum.splits)

subsection \<open>C9: the output pass leaves the table alone\<close>

text \<open>
  C9: the output expressions never change the table of styles. \<^verbatim>\<open>boolExpr\<close> is given
  \<^verbatim>\<open>isSourceSet\<close> only, and the loop over the output expressions returns a state with the
  \<^verbatim>\<open>sources\<close> (and the \<^verbatim>\<open>canSetSource\<close>) it started from.
\<close>

theorem outputLoop_frame:
  "outputLoop n st = Inr st' \<Longrightarrow> sources st' = sources st \<and> canSetSource st' = canSetSource st"
proof (induction n st rule: outputLoop.induct)
  case (1 nOutputs st)
  show ?case
  proof (cases "nOutputs > 0")
    case False
    with "1.prems" show ?thesis by (simp add: outputLoop.simps)
  next
    case True
    from True "1.prems" obtain c v1 r v2 where
      s: "string (stack st) = Inr (c, v1)" and
      b: "boolExpr v1 (isSourceSet (sources st)) = Inr (r, v2)" and
      rest: "outputLoop (nOutputs - 1)
               (if truthy r then st\<lparr>stack := v2, classes := classes st @ [c]\<rparr>
                else st\<lparr>stack := v2\<rparr>) = Inr st'"
      by (subst (asm) outputLoop.simps) (auto split: sum.splits)
    from "1.IH" [OF True s refl b refl rest] show ?thesis by (simp split: if_splits)
  qed
qed

theorem outputLoop_frame_witness:
  "outputLoop 2 \<lparr>stack = [JStr ''a'', JNum 3, JStr ''b'', JNum (- 1), JNum 3],
        sources = {3}, classes = [], canSetSource = True\<rparr> =
     Inr \<lparr>stack = [], sources = {3}, classes = [''a''], canSetSource = True\<rparr>
   \<and> sources \<lparr>stack = [], sources = {3}, classes = [''a''], canSetSource = True\<rparr> = {3::int}"
proof -
  have run: "outputLoop 2 \<lparr>stack = [JStr ''a'', JNum 3, JStr ''b'', JNum (- 1), JNum 3],
        sources = {3}, classes = [], canSetSource = True\<rparr> =
     Inr \<lparr>stack = [], sources = {3}, classes = [''a''], canSetSource = True\<rparr>"
    by (simp add: outputLoop.simps string_def boolExpr.simps isSourceSet_def)
  from outputLoop_frame [OF run] run show ?thesis by simp
qed

subsection \<open>C10: \<^verbatim>\<open>boolExpr\<close> terminates\<close>

text \<open>
  C10: \<^verbatim>\<open>boolExpr\<close> terminates on every stack. Its recursion is well-founded on every
  input; on the empty stack it fails; whenever it returns, the stack it leaves is strictly
  shorter than the one it was given, so every recursive call is on a shorter stack; and
  the number of invocations of \<^verbatim>\<open>boolExpr\<close> one call makes, itself included, is at most
  the length of the stack plus one (the last one may be the call that fails).
\<close>

theorem boolExpr_terminates:
  "boolExpr_andLoop_orLoop_dom (Inl (v, isSet))
   \<and> boolExpr [] isSet = Inl NotANumber
   \<and> (\<forall>r w. boolExpr v isSet = Inr (r, w) \<longrightarrow> length w < length v)
   \<and> boolExprCalls v isSet \<le> Suc (length v)"
  using boolExpr_total boolExpr_consumes(1) [of v isSet] boolExprCalls_bound(1) [of v isSet]
  by (simp add: boolExpr.simps [of "[]"])

text \<open>
  The formula \<open>AND(NOT 0, OR(4))\<close> followed by a string, with style 4 set: five
  invocations on a stack of eight elements.
\<close>

theorem boolExpr_terminates_witness:
  "boolExpr [JNum (- 3), JNum 2, JNum (- 1), JNum 0, JNum (- 2), JNum 1, JNum 4, JStr ''x'']
       (isSourceSet {4}) = Inr (JBool True, [JStr ''x''])
   \<and> length [JStr ''x''] <
       length [JNum (- 3), JNum 2, JNum (- 1), JNum 0, JNum (- 2), JNum 1, JNum 4, JStr ''x'']
   \<and> boolExprCalls
         [JNum (- 3), JNum 2, JNum (- 1), JNum 0, JNum (- 2), JNum 1, JNum 4, JStr ''x'']
         (isSourceSet {4}) = 5"
proof -
  let ?v = "[JNum (- 3), JNum 2, JNum (- 1), JNum 0, JNum (- 2), JNum 1, JNum 4, JStr ''x'']"
  have run: "boolExpr ?v (isSourceSet {4}) = Inr (JBool True, [JStr ''x''])"
    by code_simp
  have calls: "boolExprCalls ?v (isSourceSet {4}) = 5"
    by code_simp
  from boolExpr_terminates [of ?v "isSourceSet {4}"] run
  have "length [JStr ''x''] < length ?v" by blast
  with run calls show ?thesis by blast
qed

end
